theory Spec2Isabelle
  imports Main
begin

section \<open>Diagnostics bookkeeping of the language server (server.ts)\<close>

text \<open>
  The protocol types. A diagnostic carries a range, a message and a severity; the
  parameters of a publication are the URI of the document and the ordered sequence of
  its diagnostics.
\<close>

record Position =
  line :: nat
  character :: nat

record Range =
  range_start :: Position
  range_end :: Position

record Diagnostic =
  range :: Range
  message :: string
  severity :: nat

record PublishDiagnosticsParams =
  uri :: string
  diagnostics :: "Diagnostic list"

text \<open>
  The module state of server.ts that the diagnostics functions touch:
  \<^item> \<open>fileUrisWithErrors\<close> is the JavaScript \<open>Set<string>\<close>, kept as the list of its
    members in insertion order (the order in which \<open>forEach\<close> visits them);
  \<^item> \<open>transport\<close> is the sequence of calls \<open>connection.sendDiagnostics(params)\<close> made so
    far, oldest first.
\<close>

record server_state =
  fileUrisWithErrors :: "string list"
  transport :: "PublishDiagnosticsParams list"

definition initial_state :: server_state where
  "initial_state = \<lparr>fileUrisWithErrors = [], transport = []\<rparr>"

text \<open>\<open>Set.prototype.add\<close>: a member already present keeps its place, a new one goes last.\<close>

definition set_add :: "string \<Rightarrow> string list \<Rightarrow> string list" where
  "set_add u us = (if u \<in> set us then us else us @ [u])"

text \<open>
  \<^verbatim>\<open>
  export function sendDiagnostics (params: PublishDiagnosticsParams) {
    fileUrisWithErrors.add(params.uri)
    connection.sendDiagnostics(params)
  }
  \<close>
\<close>

definition sendDiagnostics :: "PublishDiagnosticsParams \<Rightarrow> server_state \<Rightarrow> server_state" where
  "sendDiagnostics params s =
     s\<lparr>fileUrisWithErrors := set_add (uri params) (fileUrisWithErrors s),
       transport := transport s @ [params]\<rparr>"

text \<open>
  \<^verbatim>\<open>
  export function clearDiagnostics () {
    fileUrisWithErrors.forEach((uri: string) => sendDiagnostics({ uri, diagnostics: [] }))
    fileUrisWithErrors.clear()
  }
  \<close>
  \<open>forEach\<close> walks the live set: the callback runs on the member at position \<open>i\<close> of the
  set as it is at that moment, and members added by the callback would be visited too.
  The callback here calls \<open>sendDiagnostics\<close>, which adds the member being visited.
\<close>

definition retraction :: "string \<Rightarrow> PublishDiagnosticsParams" where
  "retraction u = \<lparr>uri = u, diagnostics = []\<rparr>"

function forEach_retract :: "nat \<Rightarrow> server_state \<Rightarrow> server_state" where
  "forEach_retract i s =
     (if i < length (fileUrisWithErrors s)
      then forEach_retract (Suc i) (sendDiagnostics (retraction (fileUrisWithErrors s ! i)) s)
      else s)"
  by pat_completeness auto
termination
proof (relation "measure (\<lambda>(i, s). length (fileUrisWithErrors s) - i)")
  show "wf (measure (\<lambda>(i, s). length (fileUrisWithErrors s) - i))"
    by simp
next
  fix i :: nat and s :: server_state
  assume less: "i < length (fileUrisWithErrors s)"
  then have "fileUrisWithErrors s ! i \<in> set (fileUrisWithErrors s)"
    by simp
  then have "fileUrisWithErrors (sendDiagnostics (retraction (fileUrisWithErrors s ! i)) s)
      = fileUrisWithErrors s"
    by (simp add: sendDiagnostics_def retraction_def set_add_def)
  with less show "((Suc i, sendDiagnostics (retraction (fileUrisWithErrors s ! i)) s), (i, s))
      \<in> measure (\<lambda>(i, s). length (fileUrisWithErrors s) - i)"
    by simp
qed

definition clearDiagnostics :: "server_state \<Rightarrow> server_state" where
  "clearDiagnostics s = (forEach_retract 0 s)\<lparr>fileUrisWithErrors := []\<rparr>"

subsection \<open>Sequences of calls\<close>

text \<open>
  The two exported functions are the only code that touches \<open>fileUrisWithErrors\<close>. A
  history of the module is a list of calls, run from left to right on the state.
\<close>

datatype ledger_call = Send PublishDiagnosticsParams | Clear

fun call :: "ledger_call \<Rightarrow> server_state \<Rightarrow> server_state" where
  "call (Send params) s = sendDiagnostics params s"
| "call Clear s = clearDiagnostics s"

fun run_calls :: "ledger_call list \<Rightarrow> server_state \<Rightarrow> server_state" where
  "run_calls [] s = s"
| "run_calls (c # cs) s = run_calls cs (call c s)"

text \<open>
  The diagnostics array that the editor was last sent for a URI: the most recent transport
  call with that URI, if there is one.
\<close>

definition last_published :: "string \<Rightarrow> server_state \<Rightarrow> Diagnostic list option" where
  "last_published u s = map_option diagnostics (find (\<lambda>p. uri p = u) (rev (transport s)))"

text \<open>
  The reading of a history by its words: the calls made since the most recent
  \<open>clearDiagnostics\<close> (or since the start), and the URIs that \<open>sendDiagnostics\<close> was given
  among them.
\<close>

definition calls_since_clear :: "ledger_call list \<Rightarrow> ledger_call list" where
  "calls_since_clear cs = rev (takeWhile (\<lambda>c. c \<noteq> Clear) (rev cs))"

fun sent_uri :: "ledger_call \<Rightarrow> string list" where
  "sent_uri (Send params) = [uri params]"
| "sent_uri Clear = []"

definition uris_since_clear :: "ledger_call list \<Rightarrow> string set" where
  "uris_since_clear cs = set (concat (map sent_uri (calls_since_clear cs)))"

text \<open>
  More of the same reading: the parameters that \<open>sendDiagnostics\<close> was given since the most
  recent \<open>clearDiagnostics\<close>, the array of the latest such call for a URI, whether a URI
  was ever given to \<open>sendDiagnostics\<close>, and the histories in which no caller passes an
  empty array.
\<close>

fun sent_params :: "ledger_call \<Rightarrow> PublishDiagnosticsParams list" where
  "sent_params (Send params) = [params]"
| "sent_params Clear = []"

definition params_since_clear :: "ledger_call list \<Rightarrow> PublishDiagnosticsParams list" where
  "params_since_clear cs = concat (map sent_params (calls_since_clear cs))"

definition latest_since_clear :: "string \<Rightarrow> ledger_call list \<Rightarrow> Diagnostic list option" where
  "latest_since_clear u cs =
     map_option diagnostics (find (\<lambda>p. uri p = u) (rev (params_since_clear cs)))"

definition ever_published :: "string \<Rightarrow> ledger_call list \<Rightarrow> bool" where
  "ever_published u cs = (u \<in> set (concat (map sent_uri cs)))"

fun nonempty_call :: "ledger_call \<Rightarrow> bool" where
  "nonempty_call (Send params) = (diagnostics params \<noteq> [])"
| "nonempty_call Clear = True"

definition nonempty_callers :: "ledger_call list \<Rightarrow> bool" where
  "nonempty_callers cs = list_all nonempty_call cs"

text \<open>A sample diagnostic and a sample URI, for the scenarios.\<close>

definition err1 :: Diagnostic where
  "err1 =
     \<lparr>range = \<lparr>range_start = \<lparr>line = 0, character = 0\<rparr>,
               range_end = \<lparr>line = 0, character = 1\<rparr>\<rparr>,
      message = ''err1'', severity = 1\<rparr>"

definition file_a :: string where
  "file_a = ''file://a''"

definition file_b :: string where
  "file_b = ''file://b''"

section \<open>Registration of the handlers (server.ts)\<close>

text \<open>
  Modelled from the spec: the enumeration \<open>jobs.Request\<close> of engine/jobs, which is not
  part of the sources at hand. server.ts names its members \<open>internalReady\<close>, \<open>apiAddUri\<close>
  and \<open>apiRemUri\<close>; the others are the request kinds that the specification lists.
\<close>

datatype Request =
  internalReady | apiAddUri | apiRemUri | documentChanged | documentSaved
  | hover | gotoDefinition | shutdown

text \<open>The places where server.ts registers a handler, and the handlers it imports.\<close>

datatype listener =
  onNotification Request | onExit | onDidChangeContent | onDidSave | onHover | onDefinition

datatype handler =
  handleReady | handleAddUri | handleRemUri | handleExit | handleChangeContent
  | handleHover | handleGotoDefinition

text \<open>
  \<^verbatim>\<open>
  connection.onNotification(jobs.Request.internalReady, handlers.handleReady)
  connection.onNotification(jobs.Request.apiAddUri, handlers.handleAddUri)
  connection.onNotification(jobs.Request.apiRemUri, handlers.handleRemUri)
  connection.onExit(handlers.handleExit)
  documents.onDidChangeContent(handlers.handleChangeContent)
  documents.onDidSave(handlers.handleChangeContent)
  connection.onHover(handlers.handleHover)
  connection.onDefinition(handlers.handleGotoDefinition)
  \<close>
\<close>

definition registrations :: "(listener \<times> handler) list" where
  "registrations =
     [(onNotification internalReady, handleReady),
      (onNotification apiAddUri, handleAddUri),
      (onNotification apiRemUri, handleRemUri),
      (onExit, handleExit),
      (onDidChangeContent, handleChangeContent),
      (onDidSave, handleChangeContent),
      (onHover, handleHover),
      (onDefinition, handleGotoDefinition)]"

definition registered :: "listener \<Rightarrow> handler list" where
  "registered l = map snd (filter (\<lambda>r. fst r = l) registrations)"

text \<open>
  An event on a listener runs the handlers registered there, in order, on the payload of
  the event. The bodies of the handlers live in the module handlers, which is not part of
  the sources at hand: \<open>body\<close> stands for them.
\<close>

definition fire :: "(handler \<Rightarrow> 'e \<Rightarrow> 'st \<Rightarrow> 'st) \<Rightarrow> listener \<Rightarrow> 'e \<Rightarrow> 'st \<Rightarrow> 'st" where
  "fire body l e st = fold (\<lambda>h. body h e) (registered l) st"

section \<open>The job engine\<close>

text \<open>
  Modelled from the spec: the job engine (engine/jobs and the queue behind the handlers),
  which is not part of the sources at hand. The definitions follow sections 3 and 4.1 of
  the specification: a job, the four engine states, the pending queue, and the jobs
  outstanding against the compiler proxy. The outstanding jobs are kept as a list, so that
  "at most one" is a property of the operations and not of the type.
\<close>

record Job =
  kind :: Request
  payload_key :: string
  payload :: string
  job_id :: nat

datatype EngineState = NotReady | Ready | Busy | Exited

datatype job_result = Answer string | CompilerUnavailable | ProtocolError

record Engine =
  engineState :: EngineState
  pendingQueue :: "Job list"
  inFlight :: "Job list"
  dispatched :: "Job list"
  resolved :: "(nat \<times> job_result) list"

definition initial_engine :: Engine where
  "initial_engine =
     \<lparr>engineState = NotReady, pendingQueue = [], inFlight = [], dispatched = [], resolved = []\<rparr>"

text \<open>Modelled from the spec: document recompiles coalesce, keyed by kind and payload key.\<close>

definition coalescable :: "Request \<Rightarrow> bool" where
  "coalescable k = (k = documentChanged \<or> k = documentSaved)"

definition same_key :: "Job \<Rightarrow> Job \<Rightarrow> bool" where
  "same_key j j' = (kind j = kind j' \<and> payload_key j = payload_key j')"

fun supersede :: "Job \<Rightarrow> Job list \<Rightarrow> Job list" where
  "supersede j [] = []"
| "supersede j (q # qs) = (if same_key q j then j # qs else q # supersede j qs)"

text \<open>
  Modelled from the spec: \<open>submit(job)\<close> enqueues a job; a coalescable job replaces an
  equivalent-key job of the queue in place.
\<close>

definition submit :: "Job \<Rightarrow> Engine \<Rightarrow> Engine" where
  "submit j e =
     (if coalescable (kind j) \<and> find (\<lambda>q. same_key q j) (pendingQueue e) \<noteq> None
      then e\<lparr>pendingQueue := supersede j (pendingQueue e)\<rparr>
      else e\<lparr>pendingQueue := pendingQueue e @ [j]\<rparr>)"

text \<open>
  Modelled from the spec: \<open>drive()\<close> pops the head of the queue, moves it to the jobs in
  flight and dispatches it; the engine is \<open>Busy\<close> around a dispatched job. It does nothing
  when the queue is empty or the engine is not \<open>Ready\<close>.
\<close>

definition drive :: "Engine \<Rightarrow> Engine" where
  "drive e =
     (case pendingQueue e of
        [] \<Rightarrow> e
      | j # rest \<Rightarrow>
          if engineState e = Ready
          then e\<lparr>engineState := Busy, pendingQueue := rest,
                 inFlight := inFlight e @ [j], dispatched := dispatched e @ [j]\<rparr>
          else e)"

text \<open>
  Modelled from the spec: \<open>onResult(id, result)\<close> is matched against the jobs in flight; a
  match resolves the caller, takes the job out of flight, and drives again; a result that
  matches nothing is discarded.
\<close>

definition onResult :: "nat \<Rightarrow> job_result \<Rightarrow> Engine \<Rightarrow> Engine" where
  "onResult i r e =
     (if find (\<lambda>j. job_id j = i) (inFlight e) \<noteq> None
      then drive (e\<lparr>engineState := Ready,
                    inFlight := filter (\<lambda>j. job_id j \<noteq> i) (inFlight e),
                    resolved := resolved e @ [(i, r)]\<rparr>)
      else e)"

text \<open>
  Modelled from the spec: the readiness notification of the compiler takes the engine from
  \<open>NotReady\<close> to \<open>Ready\<close>.
\<close>

definition onCompilerReady :: "Engine \<Rightarrow> Engine" where
  "onCompilerReady e = (if engineState e = NotReady then e\<lparr>engineState := Ready\<rparr> else e)"

text \<open>
  Modelled from the spec: \<open>onCompilerExit()\<close> sets the state to \<open>Exited\<close> and fails the job
  in flight and every queued job with \<open>CompilerUnavailable\<close>, dispatching none of them.
\<close>

definition onCompilerExit :: "Engine \<Rightarrow> Engine" where
  "onCompilerExit e =
     e\<lparr>engineState := Exited, pendingQueue := [], inFlight := [],
       resolved := resolved e
         @ map (\<lambda>j. (job_id j, CompilerUnavailable)) (inFlight e @ pendingQueue e)\<rparr>"

datatype engine_event =
  Submit Job | Dispatch | Result nat job_result | CompilerReady | CompilerExit

fun engine_step :: "engine_event \<Rightarrow> Engine \<Rightarrow> Engine" where
  "engine_step (Submit j) e = submit j e"
| "engine_step Dispatch e = drive e"
| "engine_step (Result i r) e = onResult i r e"
| "engine_step CompilerReady e = onCompilerReady e"
| "engine_step CompilerExit e = onCompilerExit e"

fun run_engine :: "engine_event list \<Rightarrow> Engine \<Rightarrow> Engine" where
  "run_engine [] e = e"
| "run_engine (ev # evs) e = run_engine evs (engine_step ev e)"

text \<open>
  The engine between jobs has nothing in flight; a busy engine has at most one job in
  flight.
\<close>

definition engine_inv :: "Engine \<Rightarrow> bool" where
  "engine_inv e =
     (if engineState e = Busy then length (inFlight e) \<le> 1 else inFlight e = [])"

section \<open>Properties of the diagnostics bookkeeping\<close>

declare forEach_retract.simps [simp del]

lemma set_add_member: "u \<in> set us \<Longrightarrow> set_add u us = us"
  by (simp add: set_add_def)

lemma set_set_add: "set (set_add u us) = insert u (set us)"
  by (auto simp: set_add_def)

lemma distinct_set_add: "distinct us \<Longrightarrow> distinct (set_add u us)"
  by (simp add: set_add_def)

lemma sendDiagnostics_uris:
  "fileUrisWithErrors (sendDiagnostics params s) = set_add (uri params) (fileUrisWithErrors s)"
  by (simp add: sendDiagnostics_def)

lemma sendDiagnostics_transport:
  "transport (sendDiagnostics params s) = transport s @ [params]"
  by (simp add: sendDiagnostics_def)

text \<open>
  The walk over the set from position \<open>i\<close> leaves the set as it is and sends one
  retraction for each member from position \<open>i\<close> on, in order.
\<close>

lemma forEach_retract_eq:
  "forEach_retract i s =
     s\<lparr>transport := transport s @ map retraction (drop i (fileUrisWithErrors s))\<rparr>"
proof (induction i s rule: forEach_retract.induct)
  case (1 i s)
  show ?case
  proof (cases "i < length (fileUrisWithErrors s)")
    case True
    let ?u = "fileUrisWithErrors s ! i"
    let ?s' = "sendDiagnostics (retraction ?u) s"
    from True have "?u \<in> set (fileUrisWithErrors s)"
      by simp
    then have uris: "fileUrisWithErrors ?s' = fileUrisWithErrors s"
      by (simp add: sendDiagnostics_uris retraction_def set_add_member)
    have sent: "transport ?s' = transport s @ [retraction ?u]"
      by (simp add: sendDiagnostics_transport)
    have rest: "drop i (fileUrisWithErrors s) = ?u # drop (Suc i) (fileUrisWithErrors s)"
      using True by (simp add: Cons_nth_drop_Suc)
    have s': "?s' = s\<lparr>transport := transport s @ [retraction ?u]\<rparr>"
      using uris by (simp add: sendDiagnostics_def)
    have "forEach_retract i s = forEach_retract (Suc i) ?s'"
      using True by (subst forEach_retract.simps) simp
    also have "\<dots> = ?s'\<lparr>transport := transport ?s'
        @ map retraction (drop (Suc i) (fileUrisWithErrors ?s'))\<rparr>"
      using "1.IH" True by simp
    also have "\<dots> = s\<lparr>transport := transport s
        @ map retraction (drop i (fileUrisWithErrors s))\<rparr>"
      unfolding uris sent rest by (subst s') simp
    finally show ?thesis .
  next
    case False
    then have "forEach_retract i s = s"
      by (subst forEach_retract.simps) simp
    with False show ?thesis
      by simp
  qed
qed

lemma clearDiagnostics_eq:
  "clearDiagnostics s =
     \<lparr>fileUrisWithErrors = [],
      transport = transport s @ map retraction (fileUrisWithErrors s)\<rparr>"
  by (simp add: clearDiagnostics_def forEach_retract_eq)

lemma clearDiagnostics_uris: "fileUrisWithErrors (clearDiagnostics s) = []"
  by (simp add: clearDiagnostics_eq)

lemma clearDiagnostics_transport:
  "transport (clearDiagnostics s) = transport s @ map retraction (fileUrisWithErrors s)"
  by (simp add: clearDiagnostics_eq)

lemma run_calls_snoc: "run_calls (cs @ [c]) s = call c (run_calls cs s)"
  by (induction cs arbitrary: s) simp_all

lemma distinct_call: "distinct (fileUrisWithErrors s) \<Longrightarrow> distinct (fileUrisWithErrors (call c s))"
  by (cases c) (simp_all add: sendDiagnostics_uris distinct_set_add clearDiagnostics_uris)

lemma distinct_run_calls: "distinct (fileUrisWithErrors (run_calls cs initial_state))"
proof (induction cs rule: rev_induct)
  case Nil
  show ?case by (simp add: initial_state_def)
next
  case (snoc c cs)
  then show ?case by (simp add: run_calls_snoc distinct_call)
qed

lemma calls_since_clear_snoc:
  "calls_since_clear (cs @ [c]) = (if c = Clear then [] else calls_since_clear cs @ [c])"
  by (simp add: calls_since_clear_def)

lemma uris_since_clear_Send:
  "uris_since_clear (cs @ [Send params]) = insert (uri params) (uris_since_clear cs)"
  by (simp add: uris_since_clear_def calls_since_clear_snoc)

lemma uris_since_clear_Clear: "uris_since_clear (cs @ [Clear]) = {}"
  by (simp add: uris_since_clear_def calls_since_clear_snoc)

lemma tracked_eq_since_clear:
  "set (fileUrisWithErrors (run_calls cs initial_state)) = uris_since_clear cs"
proof (induction cs rule: rev_induct)
  case Nil
  show ?case
    by (simp add: initial_state_def uris_since_clear_def calls_since_clear_def)
next
  case (snoc c cs)
  show ?case
  proof (cases c)
    case (Send params)
    with snoc show ?thesis
      by (simp add: run_calls_snoc sendDiagnostics_uris set_set_add uris_since_clear_Send)
  next
    case Clear
    then show ?thesis
      by (simp add: run_calls_snoc clearDiagnostics_uris uris_since_clear_Clear)
  qed
qed

lemma count_list_map_retraction:
  "count_list (map retraction us) (retraction u) = count_list us u"
  by (induction us) (simp_all add: retraction_def)

lemma count_list_distinct:
  "distinct us \<Longrightarrow> count_list us u = (if u \<in> set us then 1 else 0)"
  by (induction us) auto

lemma find_app:
  "find P (xs @ ys) = (case find P xs of None \<Rightarrow> find P ys | Some x \<Rightarrow> Some x)"
  by (induction xs) simp_all

lemma find_Some_member: "find P xs = Some x \<Longrightarrow> x \<in> set xs \<and> P x"
  by (induction xs) (auto split: if_splits)

lemma find_retractions:
  "find (\<lambda>p. uri p = u) (map retraction us)
     = (if u \<in> set us then Some (retraction u) else None)"
  by (induction us) (auto simp: retraction_def)

lemma find_rev_retractions:
  "find (\<lambda>p. uri p = u) (rev (map retraction us))
     = (if u \<in> set us then Some (retraction u) else None)"
  using find_retractions [of u "rev us"] by (simp add: rev_map)

lemma params_since_clear_Send:
  "params_since_clear (cs @ [Send params]) = params_since_clear cs @ [params]"
  by (simp add: params_since_clear_def calls_since_clear_snoc)

lemma params_since_clear_Clear: "params_since_clear (cs @ [Clear]) = []"
  by (simp add: params_since_clear_def calls_since_clear_snoc)

lemma tracked_eq_params_since_clear:
  "set (fileUrisWithErrors (run_calls cs initial_state)) = uri ` set (params_since_clear cs)"
proof (induction cs rule: rev_induct)
  case Nil
  show ?case
    by (simp add: initial_state_def params_since_clear_def calls_since_clear_def)
next
  case (snoc c cs)
  show ?case
  proof (cases c)
    case (Send params)
    with snoc show ?thesis
      by (simp add: run_calls_snoc sendDiagnostics_uris set_set_add params_since_clear_Send)
  next
    case Clear
    then show ?thesis
      by (simp add: run_calls_snoc clearDiagnostics_uris params_since_clear_Clear)
  qed
qed

lemma since_clear_ever_published:
  "p \<in> set (params_since_clear cs) \<Longrightarrow> ever_published (uri p) cs"
proof (induction cs rule: rev_induct)
  case Nil
  then show ?case by (simp add: params_since_clear_def calls_since_clear_def)
next
  case (snoc c cs)
  then show ?case
    by (cases c) (auto simp: params_since_clear_Send params_since_clear_Clear ever_published_def)
qed

lemma since_clear_nonempty:
  "nonempty_callers cs \<Longrightarrow> p \<in> set (params_since_clear cs) \<Longrightarrow> diagnostics p \<noteq> []"
proof (induction cs rule: rev_induct)
  case Nil
  then show ?case by (simp add: params_since_clear_def calls_since_clear_def)
next
  case (snoc c cs)
  then show ?case
    by (cases c) (auto simp: params_since_clear_Send params_since_clear_Clear nonempty_callers_def)
qed

text \<open>The most recent transport call for a URI, after any history.\<close>

lemma last_transport_call:
  "find (\<lambda>p. uri p = u) (rev (transport (run_calls cs initial_state)))
     = (case find (\<lambda>p. uri p = u) (rev (params_since_clear cs)) of
          Some p \<Rightarrow> Some p
        | None \<Rightarrow> if ever_published u cs then Some (retraction u) else None)"
proof (induction cs rule: rev_induct)
  case Nil
  show ?case
    by (simp add: initial_state_def params_since_clear_def calls_since_clear_def
        ever_published_def)
next
  case (snoc c cs)
  show ?case
  proof (cases c)
    case (Send params)
    with snoc show ?thesis
      by (auto simp: run_calls_snoc sendDiagnostics_transport params_since_clear_Send
          ever_published_def split: option.splits)
  next
    case Clear
    let ?s = "run_calls cs initial_state"
    show ?thesis
    proof (cases "u \<in> set (fileUrisWithErrors ?s)")
      case True
      then obtain p where "p \<in> set (params_since_clear cs)" and "uri p = u"
        by (auto simp: tracked_eq_params_since_clear)
      then have "ever_published u cs"
        using since_clear_ever_published by blast
      with True Clear show ?thesis
        by (simp add: run_calls_snoc clearDiagnostics_transport params_since_clear_Clear
            find_app find_rev_retractions ever_published_def)
    next
      case False
      then have "find (\<lambda>p. uri p = u) (rev (params_since_clear cs)) = None"
        by (auto simp: tracked_eq_params_since_clear find_None_iff)
      with False Clear snoc show ?thesis
        by (simp add: run_calls_snoc clearDiagnostics_transport params_since_clear_Clear
            find_app find_rev_retractions ever_published_def)
    qed
  qed
qed

lemma tracked_iff_latest:
  "u \<in> set (fileUrisWithErrors (run_calls cs initial_state))
     \<longleftrightarrow> latest_since_clear u cs \<noteq> None"
  by (auto simp: tracked_eq_params_since_clear latest_since_clear_def find_None_iff)

lemma last_published_exact:
  "last_published u (run_calls cs initial_state)
     = (if u \<in> set (fileUrisWithErrors (run_calls cs initial_state))
        then latest_since_clear u cs
        else if ever_published u cs then Some [] else None)"
proof (cases "find (\<lambda>p. uri p = u) (rev (params_since_clear cs))")
  case None
  then have "u \<notin> set (fileUrisWithErrors (run_calls cs initial_state))"
    by (auto simp: tracked_eq_params_since_clear find_None_iff)
  with None show ?thesis
    by (simp add: last_published_def last_transport_call retraction_def)
next
  case (Some p)
  then have "u \<in> set (fileUrisWithErrors (run_calls cs initial_state))"
    by (auto simp: tracked_eq_params_since_clear dest!: find_Some_member)
  with Some show ?thesis
    by (simp add: last_published_def last_transport_call latest_since_clear_def)
qed

lemma latest_nonempty:
  assumes "nonempty_callers cs" and "latest_since_clear u cs = Some ds"
  shows "ds \<noteq> []"
proof -
  from assms(2) obtain p where f: "find (\<lambda>p. uri p = u) (rev (params_since_clear cs)) = Some p"
    and ds: "ds = diagnostics p"
    by (auto simp: latest_since_clear_def)
  from f have "p \<in> set (params_since_clear cs)"
    by (auto dest: find_Some_member)
  with assms(1) ds show ?thesis
    by (simp add: since_clear_nonempty)
qed

text \<open>
  Claim C1, as the code has it. The claim that a tracked URI was last published with at
  least one diagnostic fails: \<open>sendDiagnostics\<close> adds the URI whatever the array holds.
  After the single call \<open>sendDiagnostics({uri: "file://a", diagnostics: []})\<close> the URI is
  tracked and its last published array is empty.
\<close>

theorem ledger_holds_empty_entry_counterexample:
  "file_a \<in> set (fileUrisWithErrors (run_calls [Send (retraction file_a)] initial_state))
   \<and> last_published file_a (run_calls [Send (retraction file_a)] initial_state) = Some []"
  by (simp add: initial_state_def sendDiagnostics_def set_add_def retraction_def
      last_published_def)

text \<open>
  Claim C1, amended: for every sequence of \<open>sendDiagnostics\<close> and \<open>clearDiagnostics\<close> calls
  from the start, a URI is tracked in \<open>fileUrisWithErrors\<close> exactly when \<open>sendDiagnostics\<close>
  was called for it since the most recent \<open>clearDiagnostics\<close>; the array last published
  for a tracked URI is the array of the latest such call (empty exactly when that call
  passed an empty array), and a URI that is not tracked was never published or was last
  published with an empty array. So, in every history in which no caller passes an empty
  array, a URI is tracked if and only if it was last published with at least one
  diagnostic.
\<close>

theorem tracked_last_published_exact:
  "(u \<in> set (fileUrisWithErrors (run_calls cs initial_state))
      \<longleftrightarrow> latest_since_clear u cs \<noteq> None)
   \<and> last_published u (run_calls cs initial_state)
       = (if u \<in> set (fileUrisWithErrors (run_calls cs initial_state))
          then latest_since_clear u cs
          else if ever_published u cs then Some [] else None)
   \<and> (nonempty_callers cs \<longrightarrow>
        (u \<in> set (fileUrisWithErrors (run_calls cs initial_state))
           \<longleftrightarrow> (\<exists>ds. last_published u (run_calls cs initial_state) = Some ds \<and> ds \<noteq> [])))"
proof (intro conjI impI)
  show "u \<in> set (fileUrisWithErrors (run_calls cs initial_state))
      \<longleftrightarrow> latest_since_clear u cs \<noteq> None"
    by (rule tracked_iff_latest)
  show "last_published u (run_calls cs initial_state)
       = (if u \<in> set (fileUrisWithErrors (run_calls cs initial_state))
          then latest_since_clear u cs
          else if ever_published u cs then Some [] else None)"
    by (rule last_published_exact)
  assume ne: "nonempty_callers cs"
  show "u \<in> set (fileUrisWithErrors (run_calls cs initial_state))
           \<longleftrightarrow> (\<exists>ds. last_published u (run_calls cs initial_state) = Some ds \<and> ds \<noteq> [])"
  proof
    assume tracked: "u \<in> set (fileUrisWithErrors (run_calls cs initial_state))"
    then obtain ds where "latest_since_clear u cs = Some ds"
      using tracked_iff_latest by blast
    with ne tracked show "\<exists>ds. last_published u (run_calls cs initial_state) = Some ds \<and> ds \<noteq> []"
      by (auto simp: last_published_exact dest: latest_nonempty)
  next
    assume "\<exists>ds. last_published u (run_calls cs initial_state) = Some ds \<and> ds \<noteq> []"
    then show "u \<in> set (fileUrisWithErrors (run_calls cs initial_state))"
      by (auto simp: last_published_exact split: if_splits)
  qed
qed

theorem tracked_last_published_exact_witness:
  "nonempty_callers [Send \<lparr>uri = file_a, diagnostics = [err1]\<rparr>, Clear,
      Send \<lparr>uri = file_b, diagnostics = [err1]\<rparr>]
   \<and> file_b \<in> set (fileUrisWithErrors (run_calls
      [Send \<lparr>uri = file_a, diagnostics = [err1]\<rparr>, Clear,
       Send \<lparr>uri = file_b, diagnostics = [err1]\<rparr>] initial_state))
   \<and> (\<exists>ds. last_published file_b (run_calls
      [Send \<lparr>uri = file_a, diagnostics = [err1]\<rparr>, Clear,
       Send \<lparr>uri = file_b, diagnostics = [err1]\<rparr>] initial_state) = Some ds \<and> ds \<noteq> [])"
proof -
  let ?cs = "[Send \<lparr>uri = file_a, diagnostics = [err1]\<rparr>, Clear,
      Send \<lparr>uri = file_b, diagnostics = [err1]\<rparr>]"
  have ne: "nonempty_callers ?cs"
    by (simp add: nonempty_callers_def)
  have tracked: "file_b \<in> set (fileUrisWithErrors (run_calls ?cs initial_state))"
    by (simp add: sendDiagnostics_uris clearDiagnostics_uris set_set_add)
  from ne tracked tracked_last_published_exact [of file_b ?cs] show ?thesis
    by blast
qed

text \<open>
  Claim C3, as the code has it. Scenario C fails in its last part: after
  \<open>publish("file://a", [err1])\<close> and \<open>publish("file://a", [])\<close> from the start, the set
  still contains \<open>"file://a"\<close>.
\<close>

theorem scenario_C_still_tracked_counterexample:
  "file_a \<in> set (fileUrisWithErrors
     (sendDiagnostics \<lparr>uri = file_a, diagnostics = []\<rparr>
       (sendDiagnostics \<lparr>uri = file_a, diagnostics = [err1]\<rparr> initial_state)))"
  by (simp add: initial_state_def sendDiagnostics_def set_add_def)

text \<open>
  Claim C3, amended: \<open>sendDiagnostics\<close> with one diagnostic for a URI and then with the empty
  array for the same URI makes exactly two transport calls, the second carrying the empty
  array, and afterwards \<open>fileUrisWithErrors\<close> still contains the URI.
\<close>

theorem scenario_C_two_calls_uri_stays:
  "transport (sendDiagnostics \<lparr>uri = u, diagnostics = []\<rparr>
       (sendDiagnostics \<lparr>uri = u, diagnostics = [d]\<rparr> s))
     = transport s @ [\<lparr>uri = u, diagnostics = [d]\<rparr>, \<lparr>uri = u, diagnostics = []\<rparr>]
   \<and> u \<in> set (fileUrisWithErrors (sendDiagnostics \<lparr>uri = u, diagnostics = []\<rparr>
       (sendDiagnostics \<lparr>uri = u, diagnostics = [d]\<rparr> s)))"
  by (simp add: sendDiagnostics_uris sendDiagnostics_transport set_set_add)

text \<open>
  Claim C4, as the code has it. Two calls \<open>publish(uri, [])\<close> in a row send two retractions,
  not one: with \<open>"file://a"\<close> tracked after a publication of \<open>err1\<close>, the transport then
  sees that publication followed by two empty arrays.
\<close>

theorem empty_publish_twice_counterexample:
  "transport (sendDiagnostics (retraction file_a) (sendDiagnostics (retraction file_a)
       (sendDiagnostics \<lparr>uri = file_a, diagnostics = [err1]\<rparr> initial_state)))
     = [\<lparr>uri = file_a, diagnostics = [err1]\<rparr>, retraction file_a, retraction file_a]"
  by (simp add: initial_state_def sendDiagnostics_def)

text \<open>
  Claim C4, amended: for every URI and every state, calling \<open>sendDiagnostics\<close> with the empty
  array twice in a row sends exactly two empty-array notifications, one for each call.
\<close>

theorem empty_publish_twice_sends_two:
  "transport (sendDiagnostics (retraction u) (sendDiagnostics (retraction u) s))
     = transport s @ [retraction u, retraction u]"
  by (simp add: sendDiagnostics_transport)

text \<open>
  Claim C5, as the code has it. For the untracked URI \<open>"file://a"\<close> at the start,
  \<open>publish("file://a", [])\<close> does send a notification and does change the set; and for the
  same URI tracked after a publication of \<open>err1\<close>, the entry is not deleted.
\<close>

theorem empty_publish_untracked_counterexample:
  "file_a \<notin> set (fileUrisWithErrors initial_state)
   \<and> transport (sendDiagnostics (retraction file_a) initial_state) = [retraction file_a]
   \<and> fileUrisWithErrors (sendDiagnostics (retraction file_a) initial_state) = [file_a]
   \<and> file_a \<in> set (fileUrisWithErrors (sendDiagnostics (retraction file_a)
       (sendDiagnostics \<lparr>uri = file_a, diagnostics = [err1]\<rparr> initial_state)))"
  by (simp add: initial_state_def sendDiagnostics_def set_add_def retraction_def)

text \<open>
  Claim C5, amended: for every URI, tracked or not, \<open>sendDiagnostics\<close> with the empty array
  forwards exactly one empty-array notification, and afterwards the URI is tracked: the
  set is the one before with the URI added.
\<close>

theorem empty_publish_always_sends_and_tracks:
  "transport (sendDiagnostics (retraction u) s) = transport s @ [retraction u]
   \<and> diagnostics (retraction u) = []
   \<and> set (fileUrisWithErrors (sendDiagnostics (retraction u) s))
       = insert u (set (fileUrisWithErrors s))"
  by (simp add: sendDiagnostics_uris sendDiagnostics_transport set_set_add retraction_def)

text \<open>
  Claim C6: \<open>clearDiagnostics\<close> sends exactly one empty-array notification for every URI
  tracked at the moment of the call, and none for any other URI, and leaves the set empty.
  The members of a JavaScript set are distinct, which is the hypothesis.
\<close>

theorem clearDiagnostics_retracts_each_once:
  assumes "distinct (fileUrisWithErrors s)"
  shows "transport (clearDiagnostics s) = transport s @ map retraction (fileUrisWithErrors s)
    \<and> count_list (map retraction (fileUrisWithErrors s)) (retraction u)
        = (if u \<in> set (fileUrisWithErrors s) then 1 else 0)
    \<and> diagnostics (retraction u) = []
    \<and> fileUrisWithErrors (clearDiagnostics s) = []"
proof -
  from assms have "count_list (map retraction (fileUrisWithErrors s)) (retraction u)
      = (if u \<in> set (fileUrisWithErrors s) then 1 else 0)"
    by (simp only: count_list_map_retraction count_list_distinct)
  moreover have "diagnostics (retraction u) = []"
    by (simp add: retraction_def)
  ultimately show ?thesis
    by (simp only: clearDiagnostics_transport clearDiagnostics_uris simp_thms)
qed

theorem clearDiagnostics_retracts_each_once_witness:
  "distinct (fileUrisWithErrors \<lparr>fileUrisWithErrors = [file_a, file_b], transport = []\<rparr>)
   \<and> transport (clearDiagnostics \<lparr>fileUrisWithErrors = [file_a, file_b], transport = []\<rparr>)
       = [retraction file_a, retraction file_b]
   \<and> fileUrisWithErrors
       (clearDiagnostics \<lparr>fileUrisWithErrors = [file_a, file_b], transport = []\<rparr>) = []"
proof -
  have d: "distinct (fileUrisWithErrors \<lparr>fileUrisWithErrors = [file_a, file_b], transport = []\<rparr>)"
    by (simp add: file_a_def file_b_def)
  from d clearDiagnostics_retracts_each_once [OF d, of file_a] show ?thesis
    by simp
qed

text \<open>
  Claim C7: for every URI and every non-empty diagnostics list, \<open>clearDiagnostics\<close> followed
  by \<open>sendDiagnostics\<close> leaves \<open>fileUrisWithErrors\<close> containing exactly that URI.
\<close>

theorem clear_then_publish_tracks_only_that_uri:
  assumes "diagnostics params \<noteq> []"
  shows "fileUrisWithErrors (sendDiagnostics params (clearDiagnostics s)) = [uri params]"
  by (simp add: sendDiagnostics_uris clearDiagnostics_uris set_add_def)

theorem clear_then_publish_tracks_only_that_uri_witness:
  "diagnostics \<lparr>uri = file_a, diagnostics = [err1]\<rparr> \<noteq> []
   \<and> fileUrisWithErrors (sendDiagnostics \<lparr>uri = file_a, diagnostics = [err1]\<rparr>
       (clearDiagnostics \<lparr>fileUrisWithErrors = [file_b], transport = []\<rparr>)) = [file_a]"
proof -
  have ne: "diagnostics \<lparr>uri = file_a, diagnostics = [err1]\<rparr> \<noteq> []"
    by simp
  from ne clear_then_publish_tracks_only_that_uri [OF ne,
      of "\<lparr>fileUrisWithErrors = [file_b], transport = []\<rparr>"]
  show ?thesis
    by simp
qed

text \<open>
  Claim C9: after any sequence of \<open>sendDiagnostics\<close> and \<open>clearDiagnostics\<close> calls from the
  start, \<open>fileUrisWithErrors\<close> contains exactly the URIs passed to \<open>sendDiagnostics\<close> since the
  most recent \<open>clearDiagnostics\<close> (or since the start), whatever the diagnostics arrays
  were; and \<open>sendDiagnostics\<close> forwards exactly one notification, with its parameters as
  they came.
\<close>

theorem tracked_exactly_sent_since_clear:
  "set (fileUrisWithErrors (run_calls cs initial_state)) = uris_since_clear cs
   \<and> transport (sendDiagnostics params s) = transport s @ [params]"
  by (simp add: tracked_eq_since_clear sendDiagnostics_transport)

theorem tracked_exactly_sent_since_clear_witness:
  "set (fileUrisWithErrors
      (run_calls [Send \<lparr>uri = file_b, diagnostics = [err1]\<rparr>, Clear, Send (retraction file_a)]
        initial_state)) = {file_a}"
  using tracked_exactly_sent_since_clear
    [of "[Send \<lparr>uri = file_b, diagnostics = [err1]\<rparr>, Clear, Send (retraction file_a)]"]
  by (simp add: uris_since_clear_def calls_since_clear_def retraction_def)

text \<open>
  Claim C10: \<open>clearDiagnostics\<close> is idempotent: a second call right after a first sends no
  notification and leaves the set empty, whatever the state before the first call.
\<close>

theorem clearDiagnostics_idempotent:
  "transport (clearDiagnostics (clearDiagnostics s)) = transport (clearDiagnostics s)
   \<and> fileUrisWithErrors (clearDiagnostics (clearDiagnostics s)) = []"
  by (simp add: clearDiagnostics_transport clearDiagnostics_uris)

section \<open>Properties of the registration\<close>

text \<open>
  Claim C8: the content-change event (a document opened or changed) and the save event
  run the same handler, \<open>handleChangeContent\<close>, so that for every body of the handlers,
  every payload and every state the two events do the same.
\<close>

theorem save_runs_change_handler:
  "registered onDidSave = [handleChangeContent]
   \<and> registered onDidChangeContent = [handleChangeContent]
   \<and> fire body onDidSave e st = fire body onDidChangeContent e st"
  by (simp add: registered_def registrations_def fire_def)

section \<open>Properties of the job engine\<close>

lemma engine_inv_length: "engine_inv e \<Longrightarrow> length (inFlight e) \<le> 1"
  by (simp add: engine_inv_def split: if_splits)

lemma engine_inv_submit: "engine_inv e \<Longrightarrow> engine_inv (submit j e)"
  by (auto simp: engine_inv_def submit_def split: if_splits)

lemma engine_inv_drive: "engine_inv e \<Longrightarrow> engine_inv (drive e)"
  by (auto simp: engine_inv_def drive_def split: list.splits if_splits)

lemma engine_inv_onCompilerReady: "engine_inv e \<Longrightarrow> engine_inv (onCompilerReady e)"
  by (auto simp: engine_inv_def onCompilerReady_def split: if_splits)

lemma engine_inv_onCompilerExit: "engine_inv (onCompilerExit e)"
  by (simp add: engine_inv_def onCompilerExit_def)

lemma single_in_flight_matched:
  assumes "length js \<le> 1" and "find (\<lambda>j. job_id j = i) js \<noteq> None"
  shows "filter (\<lambda>j. job_id j \<noteq> i) js = []"
proof (cases js)
  case Nil
  then show ?thesis by simp
next
  case (Cons j rest)
  with assms(1) have "rest = []" by simp
  with Cons assms(2) show ?thesis by (simp split: if_splits)
qed

lemma engine_inv_onResult:
  assumes "engine_inv e"
  shows "engine_inv (onResult i r e)"
proof (cases "find (\<lambda>j. job_id j = i) (inFlight e) \<noteq> None")
  case True
  let ?e' = "e\<lparr>engineState := Ready,
      inFlight := filter (\<lambda>j. job_id j \<noteq> i) (inFlight e),
      resolved := resolved e @ [(i, r)]\<rparr>"
  from assms True have "filter (\<lambda>j. job_id j \<noteq> i) (inFlight e) = []"
    by (intro single_in_flight_matched engine_inv_length)
  then have "engine_inv ?e'"
    by (simp add: engine_inv_def)
  then have "engine_inv (drive ?e')"
    by (rule engine_inv_drive)
  with True show ?thesis
    by (simp add: onResult_def)
next
  case False
  with assms show ?thesis
    by (simp add: onResult_def)
qed

lemma engine_inv_step: "engine_inv e \<Longrightarrow> engine_inv (engine_step ev e)"
  by (cases ev)
    (simp_all add: engine_inv_submit engine_inv_drive engine_inv_onResult
      engine_inv_onCompilerReady engine_inv_onCompilerExit)

lemma engine_inv_run: "engine_inv e \<Longrightarrow> engine_inv (run_engine evs e)"
  by (induction evs arbitrary: e) (simp_all add: engine_inv_step)

lemma engine_inv_initial: "engine_inv initial_engine"
  by (simp add: engine_inv_def initial_engine_def)

text \<open>
  Claim C2: for every interleaving of submit, dispatch and result events (and of the
  readiness and exit notifications of the compiler) from the initial engine, at most one
  job is outstanding against the compiler proxy.
\<close>

theorem at_most_one_in_flight:
  "length (inFlight (run_engine evs initial_engine)) \<le> 1"
  by (intro engine_inv_length engine_inv_run engine_inv_initial)

theorem at_most_one_in_flight_witness:
  "length (inFlight (run_engine
      [CompilerReady,
       Submit \<lparr>kind = documentChanged, payload_key = file_a, payload = ''v1'', job_id = 1\<rparr>,
       Submit \<lparr>kind = hover, payload_key = file_a, payload = ''0:0'', job_id = 2\<rparr>,
       Dispatch, Dispatch] initial_engine)) = 1"
  using at_most_one_in_flight
    [of "[CompilerReady,
       Submit \<lparr>kind = documentChanged, payload_key = file_a, payload = ''v1'', job_id = 1\<rparr>,
       Submit \<lparr>kind = hover, payload_key = file_a, payload = ''0:0'', job_id = 2\<rparr>,
       Dispatch, Dispatch]"]
  by (simp add: initial_engine_def onCompilerReady_def submit_def coalescable_def drive_def)

end
